theory Spec2Isabelle
  imports Main "HOL-Library.AList" "HOL-Library.Sublist" "HOL-Library.Multiset"
begin

section \<open>Python values and strings\<close>

text \<open>
  Strings are lists of characters. \<open>str.lower\<close> and \<open>str.split\<close> are
  modelled on ASCII text: the upper-case letters A to Z and the ASCII white space that
  Python's \<open>str.isspace\<close> accepts. \<open>a in b\<close> on two strings is \<^const>\<open>sublist\<close>.
\<close>

datatype py_value = PyStr string | PyInt int | PyNone

datatype py_exception =
  FileNotFoundError | JSONDecodeError | UnicodeDecodeError | PermissionError | IsADirectoryError
  | KeyError

definition lower_char :: "char \<Rightarrow> char" where
  "lower_char c =
     (case map_of (zip ''ABCDEFGHIJKLMNOPQRSTUVWXYZ'' ''abcdefghijklmnopqrstuvwxyz'') c of
        Some d \<Rightarrow> d
      | None \<Rightarrow> c)"

definition lower :: "string \<Rightarrow> string" where
  "lower s = map lower_char s"

definition is_space :: "char \<Rightarrow> bool" where
  "is_space c = (c \<in> set [CHR '' '', CHR 0x09, CHR 0x0A, CHR 0x0B, CHR 0x0C, CHR 0x0D,
                            CHR 0x1C, CHR 0x1D, CHR 0x1E, CHR 0x1F])"

text \<open>\<open>s.split()\<close>: the maximal runs of non-space characters, in order.\<close>

fun split_from :: "string \<Rightarrow> string \<Rightarrow> string list" where
  "split_from cur [] = (if cur = [] then [] else [cur])"
| "split_from cur (c # cs) =
     (if is_space c then (if cur = [] then split_from [] cs else cur # split_from [] cs)
      else split_from (cur @ [c]) cs)"

definition str_split :: "string \<Rightarrow> string list" where
  "str_split s = split_from [] s"

text \<open>
  \<open>int(num)\<close> for the argument type \<open>Union[str, int]\<close>: an integer is itself. An ASCII
  string may have C white space (space and the characters 9 to 13, not 28 to 31) on both
  sides, may carry one sign, and is a run of decimal digits in which single underscores
  may stand between two digits; CPython refuses more than 4300 digits. Anything else
  raises \<open>ValueError\<close> or \<open>TypeError\<close>, which is \<open>None\<close> here.
\<close>

definition is_c_space :: "char \<Rightarrow> bool" where
  "is_c_space c = (c \<in> set [CHR '' '', CHR 0x09, CHR 0x0A, CHR 0x0B, CHR 0x0C, CHR 0x0D])"

definition trim :: "string \<Rightarrow> string" where
  "trim s = rev (dropWhile is_c_space (rev (dropWhile is_c_space s)))"

definition digit_of :: "char \<Rightarrow> nat option" where
  "digit_of c = map_of (zip ''0123456789'' [0, 1, 2, 3, 4, 5, 6, 7, 8, 9]) c"

fun parse_digits :: "nat \<Rightarrow> string \<Rightarrow> nat option" where
  "parse_digits acc [] = Some acc"
| "parse_digits acc (c # cs) =
     (case digit_of c of
        Some d \<Rightarrow> parse_digits (10 * acc + d) cs
      | None \<Rightarrow>
          (if c = CHR ''_'' then
             (case cs of
                [] \<Rightarrow> None
              | c' # cs' \<Rightarrow>
                  (case digit_of c' of
                     Some d \<Rightarrow> parse_digits (10 * acc + d) cs'
                   | None \<Rightarrow> None))
           else None))"

definition parse_nat :: "string \<Rightarrow> nat option" where
  "parse_nat s =
     (case s of
        [] \<Rightarrow> None
      | c # cs \<Rightarrow> (case digit_of c of Some d \<Rightarrow> parse_digits d cs | None \<Rightarrow> None))"

definition int_of_str :: "string \<Rightarrow> int option" where
  "int_of_str s =
     (if 4300 < length (filter (\<lambda>c. digit_of c \<noteq> None) s) then None
      else
        (case trim s of
           [] \<Rightarrow> None
         | c # cs \<Rightarrow>
             (if c = CHR ''-'' then map_option (\<lambda>n. - int n) (parse_nat cs)
              else if c = CHR ''+'' then map_option int (parse_nat cs)
              else map_option int (parse_nat (c # cs)))))"

fun py_int :: "py_value \<Rightarrow> int option" where
  "py_int (PyInt k) = Some k"
| "py_int (PyStr s) = int_of_str s"
| "py_int PyNone = None"

text \<open>\<open>xs[:n]\<close>: a negative bound counts from the end of the list.\<close>

definition slice_to :: "int \<Rightarrow> 'a list \<Rightarrow> 'a list" where
  "slice_to n xs =
     (if 0 \<le> n then take (nat n) xs else take (nat (int (length xs) + n)) xs)"

section \<open>The registry and its backing file\<close>

text \<open>
  A location record has the four fields of the persisted JSON object. The registry is a
  Python \<open>dict\<close> from name to record; a \<open>dict\<close> keeps insertion order, so it is an
  association list here: \<open>map_of\<close> is the lookup, \<open>AList.update\<close> the assignment
  \<open>d[k] = v\<close> (in place for a present key, appended for a new one). A \<open>dict\<close> holds
  each key once: \<open>distinct (map fst locations)\<close>.
\<close>

record location =
  galaxy :: string
  address :: string
  num_returns :: int
  description :: string

type_synonym locations = "(string \<times> location) list"

text \<open>
  What \<open>open(filename, 'r')\<close> followed by \<open>json.load\<close> meets: no file
  (\<open>FileNotFoundError\<close>); text that is not a JSON document, the empty file included
  (\<open>json.JSONDecodeError\<close>); bytes that do not decode as text, on which the read inside
  \<open>json.load\<close> raises \<open>UnicodeDecodeError\<close>, a \<open>ValueError\<close> that is not a
  \<open>JSONDecodeError\<close>; a file the process may not read (\<open>PermissionError\<close>); a
  directory (\<open>IsADirectoryError\<close>); or a stored mapping. The store also counts
  the calls of \<open>save_locations\<close>, so that a write of unchanged content is visible. Writes
  are taken to be carried out by the operating system; the temporary and the backup file
  of the save sequence are gone when it ends and are not part of the state.
\<close>

datatype file_state = Absent | Malformed | Undecodable | Denied | Directory | Stored locations

record store =
  content :: file_state
  writes :: nat

definition read_json :: "file_state \<Rightarrow> py_exception + locations" where
  "read_json f =
     (case f of
        Absent \<Rightarrow> Inl FileNotFoundError
      | Malformed \<Rightarrow> Inl JSONDecodeError
      | Undecodable \<Rightarrow> Inl UnicodeDecodeError
      | Denied \<Rightarrow> Inl PermissionError
      | Directory \<Rightarrow> Inl IsADirectoryError
      | Stored locs \<Rightarrow> Inr locs)"

text \<open>\<open>load_locations\<close>: the two \<open>except\<close> clauses return \<open>{}\<close>; any other exception
  leaves the function.\<close>

definition load_locations :: "store \<Rightarrow> py_exception + locations" where
  "load_locations st =
     (case read_json (content st) of
        Inr locs \<Rightarrow> Inr locs
      | Inl FileNotFoundError \<Rightarrow> Inr []
      | Inl JSONDecodeError \<Rightarrow> Inr []
      | Inl e \<Rightarrow> Inl e)"

definition save_locations :: "locations \<Rightarrow> store \<Rightarrow> store" where
  "save_locations locs st = st\<lparr>content := Stored locs, writes := Suc (writes st)\<rparr>"

section \<open>Fuzzy scoring\<close>

text \<open>
  The scorers come from the \<open>fuzzywuzzy\<close> package, which is not part of the repository:
  they are parameters. \<open>ratio\<close> stands for \<open>fuzz.ratio\<close>, and \<open>partial_ratio\<close> for
  the score that \<open>process.extractOne\<close> gives a query and a choice under
  \<open>scorer=fuzz.partial_ratio\<close>. \<open>extractOne\<close> keeps the choices whose score reaches its
  cutoff 0 and returns the first one of maximal score (Python's \<open>max\<close>), or \<open>None\<close>
  when there is none.
\<close>

record fuzz =
  ratio :: "string \<Rightarrow> string \<Rightarrow> int"
  partial_ratio :: "string \<Rightarrow> string \<Rightarrow> int"

fun best_of :: "string \<times> int \<Rightarrow> (string \<times> int) list \<Rightarrow> string \<times> int" where
  "best_of b [] = b"
| "best_of b (c # cs) = best_of (if snd b < snd c then c else b) cs"

definition extractOne ::
  "(string \<Rightarrow> string \<Rightarrow> int) \<Rightarrow> string \<Rightarrow> string list \<Rightarrow> (string \<times> int) option" where
  "extractOne scorer query choices =
     (case filter (\<lambda>p. 0 \<le> snd p) (map (\<lambda>c. (c, scorer query c)) choices) of
        [] \<Rightarrow> None
      | p # ps \<Rightarrow> Some (best_of p ps))"

text \<open>A scorer for concrete runs: 100 on equal strings, 0 otherwise.\<close>

definition exact_score :: "string \<Rightarrow> string \<Rightarrow> int" where
  "exact_score s t = (if s = t then 100 else 0)"

definition exact_fuzz :: fuzz where
  "exact_fuzz = \<lparr>ratio = exact_score, partial_ratio = exact_score\<rparr>"

section \<open>The resolver\<close>

text \<open>
  The three lines every successful pass ends with:
  \<open>locations[match_name]["num_returns"] += 1\<close>, \<open>save_locations(locations, ...)\<close>,
  \<open>return locations[match_name]\<close>.
\<close>

definition record_hit ::
  "string \<Rightarrow> locations \<Rightarrow> store \<Rightarrow> py_exception + (location option \<times> store)" where
  "record_hit match_name locs st =
     (case map_of locs match_name of
        None \<Rightarrow> Inl KeyError
      | Some r \<Rightarrow>
          (let r' = r\<lparr>num_returns := num_returns r + 1\<rparr>
           in Inr (Some r', save_locations (AList.update match_name r' locs) st)))"

definition substring_matches :: "string \<Rightarrow> string list \<Rightarrow> string list" where
  "substring_matches input_lower location_names =
     filter (\<lambda>name. sublist input_lower (lower name)) location_names"

definition fuzzy_phrase_match :: "fuzz \<Rightarrow> int \<Rightarrow> string \<Rightarrow> string list \<Rightarrow> string option" where
  "fuzzy_phrase_match fz threshold input_lower location_names =
     (case extractOne (partial_ratio fz) input_lower location_names of
        None \<Rightarrow> None
      | Some (match_name, score) \<Rightarrow>
          (if threshold \<le> score \<and>
              (sublist (lower match_name) input_lower \<or>
               list_ex (\<lambda>word. threshold \<le> ratio fz word (lower match_name))
                 (str_split input_lower))
           then Some match_name
           else None))"

text \<open>The inner loops of the single-word pass: one entry of \<open>matches\<close> for every
  qualifying word of every location name.\<close>

definition word_matches :: "fuzz \<Rightarrow> int \<Rightarrow> string \<Rightarrow> string list \<Rightarrow> string list" where
  "word_matches fz threshold word location_names =
     concat (map (\<lambda>loc_name.
        map (\<lambda>loc_word. loc_name)
          (filter (\<lambda>loc_word. threshold \<le> ratio fz word loc_word) (str_split loc_name)))
       location_names)"

fun single_word_match :: "fuzz \<Rightarrow> int \<Rightarrow> string list \<Rightarrow> string list \<Rightarrow> string option" where
  "single_word_match fz threshold location_names [] = None"
| "single_word_match fz threshold location_names (word # input_words) =
     (let matches = word_matches fz threshold word location_names
      in if length matches = 1 then Some (matches ! 0)
         else single_word_match fz threshold location_names input_words)"

definition single_word_pass ::
  "fuzz \<Rightarrow> int \<Rightarrow> string \<Rightarrow> locations \<Rightarrow> store \<Rightarrow> py_exception + (location option \<times> store)" where
  "single_word_pass fz threshold input_lower locs st =
     (case single_word_match fz threshold (map fst locs) (str_split input_lower) of
        Some match_name \<Rightarrow> record_hit match_name locs st
      | None \<Rightarrow> Inr (None, st))"

definition fuzzy_passes ::
  "fuzz \<Rightarrow> int \<Rightarrow> string \<Rightarrow> locations \<Rightarrow> store \<Rightarrow> py_exception + (location option \<times> store)" where
  "fuzzy_passes fz threshold input_lower locs st =
     (case fuzzy_phrase_match fz threshold input_lower (map fst locs) of
        Some match_name \<Rightarrow> record_hit match_name locs st
      | None \<Rightarrow> single_word_pass fz threshold input_lower locs st)"

definition find_location_in_string ::
  "fuzz \<Rightarrow> py_value \<Rightarrow> int \<Rightarrow> store \<Rightarrow> py_exception + (location option \<times> store)" where
  "find_location_in_string fz input_string threshold st =
     (case input_string of
        PyStr s \<Rightarrow>
          (if s = [] then Inr (None, st)
           else
             (case load_locations st of
                Inl e \<Rightarrow> Inl e
              | Inr locs \<Rightarrow>
                  (let input_lower = lower s;
                       matches = substring_matches input_lower (map fst locs)
                   in if 1 \<le> length matches \<and> length matches \<le> 2
                      then record_hit (matches ! 0) locs st
                      else fuzzy_passes fz threshold input_lower locs st)))
      | _ \<Rightarrow> Inr (None, st))"

section \<open>Registry operations\<close>

definition pair_key :: "string \<Rightarrow> string \<Rightarrow> string" where
  "pair_key g a = lower (g @ ''-'' @ a)"

definition register_location ::
  "string \<Rightarrow> string \<Rightarrow> string \<Rightarrow> string \<Rightarrow> store \<Rightarrow> py_exception + (bool \<times> store)" where
  "register_location name g a d st =
     (case load_locations st of
        Inl e \<Rightarrow> Inl e
      | Inr locs \<Rightarrow>
          (if lower name \<in> set (map (\<lambda>n. lower n) (map fst locs)) \<or>
              pair_key g a \<in> set (map (\<lambda>i. pair_key (galaxy i) (address i)) (map snd locs))
           then Inr (False, st)
           else Inr (True,
                  save_locations
                    (AList.update name
                       \<lparr>galaxy = g, address = a, num_returns = 0, description = d\<rparr> locs) st)))"

text \<open>
  \<open>sorted(locations.items(), key=..., reverse=True)\<close> is a stable sort in descending
  order of the key: \<open>sort_key\<close> (insertion sort, stable) on the negated key. An entry
  \<open>(name, data)\<close> of the result stands for \<open>dict(name=name, **data)\<close>.
\<close>

definition list_top_locations :: "py_value \<Rightarrow> store \<Rightarrow> py_exception + (string \<times> location) list" where
  "list_top_locations num st =
     (let n = (case py_int num of Some k \<Rightarrow> k | None \<Rightarrow> 0)
      in case load_locations st of
           Inl e \<Rightarrow> Inl e
         | Inr locs \<Rightarrow>
             Inr (slice_to n (sort_key (\<lambda>x. - num_returns (snd x)) locs)))"

text \<open>
  \<open>modify_location\<close> returns \<open>False\<close> on both of its failure paths and tells them apart
  in the warning it logs only; the outcome keeps the path, \<open>returned\<close> is the boolean.
\<close>

datatype modify_outcome = Not_Found | Stale_Mismatch | Modified

fun returned :: "modify_outcome \<Rightarrow> bool" where
  "returned Modified = True"
| "returned Not_Found = False"
| "returned Stale_Mismatch = False"

definition apply_fields :: "string option \<Rightarrow> string option \<Rightarrow> string option \<Rightarrow> location \<Rightarrow> location" where
  "apply_fields new_galaxy new_address new_description loc =
     (let loc1 = (case new_galaxy of Some g \<Rightarrow> loc\<lparr>galaxy := g\<rparr> | None \<Rightarrow> loc);
          loc2 = (case new_address of Some a \<Rightarrow> loc1\<lparr>address := a\<rparr> | None \<Rightarrow> loc1)
      in (case new_description of Some d \<Rightarrow> loc2\<lparr>description := d\<rparr> | None \<Rightarrow> loc2))"

definition modify_location ::
  "string \<Rightarrow> string \<Rightarrow> string \<Rightarrow> string option \<Rightarrow> string option \<Rightarrow> string option \<Rightarrow> store
     \<Rightarrow> py_exception + (modify_outcome \<times> store)" where
  "modify_location name old_galaxy old_address new_galaxy new_address new_description st =
     (case load_locations st of
        Inl e \<Rightarrow> Inl e
      | Inr locs \<Rightarrow>
          (let name_lower = lower name
           in case map_of locs name_lower of
                None \<Rightarrow> Inr (Not_Found, st)
              | Some loc \<Rightarrow>
                  (if galaxy loc \<noteq> old_galaxy \<or> address loc \<noteq> old_address
                   then Inr (Stale_Mismatch, st)
                   else
                     (let locs' = AList.update name_lower
                                    (apply_fields new_galaxy new_address new_description loc) locs
                      in if new_galaxy \<noteq> None \<or> new_address \<noteq> None \<or> new_description \<noteq> None
                         then Inr (Modified, save_locations locs' st)
                         else Inr (Modified, st)))))"

section \<open>Notions of the specification\<close>

text \<open>
  The specification's wording of the checks, to compare the code with: a name collides
  when it equals a stored name up to letter case; a pair exists when a stored record has
  exactly this galaxy and this address; a pair key exists when a stored record has the
  same lower-cased text \<open>galaxy-address\<close>, which is what the code compares.
\<close>

definition name_collides :: "string \<Rightarrow> locations \<Rightarrow> bool" where
  "name_collides name locs = list_ex (\<lambda>n. lower n = lower name) (map fst locs)"

definition pair_exists :: "string \<Rightarrow> string \<Rightarrow> locations \<Rightarrow> bool" where
  "pair_exists g a locs = list_ex (\<lambda>r. galaxy r = g \<and> address r = a) (map snd locs)"

definition pair_key_exists :: "string \<Rightarrow> string \<Rightarrow> locations \<Rightarrow> bool" where
  "pair_key_exists g a locs =
     list_ex (\<lambda>r. pair_key (galaxy r) (address r) = pair_key g a) (map snd locs)"

text \<open>
  The single-word pass in the specification's words counts the distinct location names
  with a qualifying word (\<open>qualifying_names\<close>); the code collects one entry for every
  qualifying pair of a name and one of its words (\<open>qualifying_pairs\<close>).
\<close>

definition qualifying_names :: "fuzz \<Rightarrow> int \<Rightarrow> string \<Rightarrow> string list \<Rightarrow> string list" where
  "qualifying_names fz threshold word names =
     remdups (filter (\<lambda>n. list_ex (\<lambda>w. threshold \<le> ratio fz word w) (str_split n)) names)"

definition qualifying_pairs ::
  "fuzz \<Rightarrow> int \<Rightarrow> string \<Rightarrow> string list \<Rightarrow> (string \<times> string) list" where
  "qualifying_pairs fz threshold word names =
     concat (map (\<lambda>n. map (\<lambda>w. (n, w))
        (filter (\<lambda>w. threshold \<le> ratio fz word w) (str_split n))) names)"

text \<open>
  The result of a match on the record \<open>r\<close> stored under the name \<open>m\<close>: the counter of
  that record goes up by one, the registry is saved, and the updated record is returned.
\<close>

definition matched ::
  "string \<Rightarrow> location \<Rightarrow> locations \<Rightarrow> store \<Rightarrow> py_exception + (location option \<times> store)" where
  "matched m r locs st =
     Inr (Some (r\<lparr>num_returns := num_returns r + 1\<rparr>),
          st\<lparr>content := Stored (AList.update m (r\<lparr>num_returns := num_returns r + 1\<rparr>) locs),
             writes := Suc (writes st)\<rparr>)"

section \<open>Example registries\<close>

definition empty_store :: store where
  "empty_store = \<lparr>content = Absent, writes = 0\<rparr>"

definition nova :: location where
  "nova = \<lparr>galaxy = ''3'', address = ''1A2B3C4D5E6F'', num_returns = 0, description = ''x''\<rparr>"

definition nova_store :: store where
  "nova_store = \<lparr>content = Stored [(''Nova'', nova)], writes = 1\<rparr>"

definition nova_lc :: location where
  "nova_lc = \<lparr>galaxy = ''3'', address = ''1a2b3c4d5e6f'', num_returns = 0, description = ''x''\<rparr>"

definition nova_lc_store :: store where
  "nova_lc_store = \<lparr>content = Stored [(''Nova'', nova_lc)], writes = 1\<rparr>"

definition lower_store :: store where
  "lower_store = \<lparr>content = Stored [(''nova'', nova)], writes = 1\<rparr>"

definition twin_store :: store where
  "twin_store = \<lparr>content = Stored [(''nova nova'', nova)], writes = 1\<rparr>"

definition visited :: "string \<Rightarrow> int \<Rightarrow> location" where
  "visited a n = \<lparr>galaxy = ''1'', address = a, num_returns = n, description = ''''\<rparr>"

definition six_store :: store where
  "six_store =
     \<lparr>content = Stored [(''a'', visited ''1'' 1), (''b'', visited ''2'' 7), (''c'', visited ''3'' 7),
                         (''d'', visited ''4'' 0), (''e'', visited ''5'' 3), (''f'', visited ''6'' 2)],
      writes = 0\<rparr>"

definition two_store :: store where
  "two_store = \<lparr>content = Stored [(''Nova Prime'', nova), (''Nova Minor'', nova_lc)], writes = 0\<rparr>"

definition three_store :: store where
  "three_store =
     \<lparr>content = Stored [(''nova'', nova), (''nova a'', visited ''1'' 0), (''nova b'', visited ''2'' 0)],
      writes = 0\<rparr>"

definition prime_store :: store where
  "prime_store =
     \<lparr>content = Stored [(''nova prime'', nova), (''vega prime'', nova_lc)], writes = 0\<rparr>"

section \<open>Loading\<close>




section \<open>Association lists as dictionaries\<close>

lemma lower_append: "lower (xs @ ys) = lower xs @ lower ys"
  by (simp add: lower_def)

lemma update_fresh: "k \<notin> set (map fst xs) \<Longrightarrow> AList.update k v xs = xs @ [(k, v)]"
  by (induction xs) auto

lemma update_at:
  "map_of xs k = Some r \<Longrightarrow>
     \<exists>i<length xs. xs ! i = (k, r) \<and> AList.update k v xs = xs[i := (k, v)]"
proof (induction xs)
  case Nil
  then show ?case by simp
next
  case (Cons p ps)
  show ?case
  proof (cases "fst p = k")
    case True
    with Cons.prems have "p = (k, r)" by (cases p) simp
    then have "(p # ps) ! 0 = (k, r) \<and> AList.update k v (p # ps) = (p # ps)[0 := (k, v)]"
      by simp
    then show ?thesis by blast
  next
    case False
    with Cons.prems have "map_of ps k = Some r" by (cases p) simp
    from Cons.IH [OF this] obtain i where
      i: "i < length ps" "ps ! i = (k, r)" "AList.update k v ps = ps[i := (k, v)]"
      by blast
    with False have "Suc i < length (p # ps) \<and> (p # ps) ! Suc i = (k, r) \<and>
        AList.update k v (p # ps) = (p # ps)[Suc i := (k, v)]"
      by simp
    then show ?thesis by blast
  qed
qed

lemma key_lookup: "m \<in> set (map fst locs) \<Longrightarrow> \<exists>r. map_of locs m = Some r"
  by (induction locs) auto

lemma load_empty_store: "load_locations empty_store = Inr []"
  by (simp add: empty_store_def load_locations_def read_json_def)

lemma load_nova_store: "load_locations nova_store = Inr [(''Nova'', nova)]"
  by (simp add: nova_store_def load_locations_def read_json_def)

lemma lower_Nova: "lower ''Nova'' = ''nova''" "lower ''nova'' = ''nova''"
  by (simp_all add: lower_def lower_char_def)

section \<open>Registration\<close>

lemma name_collides_iff:
  "name_collides name locs \<longleftrightarrow> lower name \<in> set (map (\<lambda>n. lower n) (map fst locs))"
  unfolding name_collides_def list_ex_iff by (simp add: image_iff) metis

lemma pair_key_exists_iff:
  "pair_key_exists g a locs \<longleftrightarrow>
     pair_key g a \<in> set (map (\<lambda>i. pair_key (galaxy i) (address i)) (map snd locs))"
  unfolding pair_key_exists_def list_ex_iff by (simp add: image_iff) metis

lemma pair_exists_key: "pair_exists g a locs \<Longrightarrow> pair_key_exists g a locs"
  by (auto simp: pair_exists_def pair_key_exists_def list_ex_iff)

lemma fresh_name: "\<not> name_collides name locs \<Longrightarrow> name \<notin> set (map fst locs)"
  by (auto simp: name_collides_def list_ex_iff)

lemma register_location_fail:
  assumes "load_locations st = Inr locs" "name_collides name locs \<or> pair_key_exists g a locs"
  shows "register_location name g a d st = Inr (False, st)"
  using assms by (simp add: register_location_def name_collides_iff pair_key_exists_iff)

lemma register_location_insert:
  assumes "load_locations st = Inr locs" "\<not> name_collides name locs" "\<not> pair_key_exists g a locs"
  shows "register_location name g a d st =
     Inr (True, st\<lparr>content := Stored (locs @
        [(name, \<lparr>galaxy = g, address = a, num_returns = 0, description = d\<rparr>)]),
        writes := Suc (writes st)\<rparr>)"
  using assms
  by (simp add: register_location_def name_collides_iff pair_key_exists_iff
      update_fresh [OF fresh_name [OF assms(2)]] save_locations_def)

text \<open>
  C7, as the code has it: on a registry that loads, \<open>register_location\<close> returns
  \<open>False\<close> and leaves the store as it is whenever the name collides up to letter case
  or the pair of galaxy and address is already stored; when the name does not collide and
  no stored record has the same lower-cased text \<open>galaxy-address\<close>, it appends the new
  record with \<open>num_returns = 0\<close> and saves.
\<close>

theorem register_location_duplicates:
  assumes "load_locations st = Inr locs"
  shows "(name_collides name locs \<or> pair_exists g a locs \<longrightarrow>
            register_location name g a d st = Inr (False, st)) \<and>
         (\<not> name_collides name locs \<and> \<not> pair_key_exists g a locs \<longrightarrow>
            register_location name g a d st =
              Inr (True, st\<lparr>content := Stored (locs @
                [(name, \<lparr>galaxy = g, address = a, num_returns = 0, description = d\<rparr>)]),
                writes := Suc (writes st)\<rparr>))"
  using register_location_fail [OF assms] register_location_insert [OF assms] pair_exists_key
  by blast

theorem register_location_duplicates_witness:
  "register_location ''Nova'' ''3'' ''1A2B3C4D5E6F'' ''x'' empty_store = Inr (True, nova_store) \<and>
   register_location ''nova'' ''3'' ''1A2B3C4D5E6F'' ''y'' nova_store = Inr (False, nova_store)"
proof -
  have a: "\<not> name_collides ''Nova'' [] \<and> \<not> pair_key_exists ''3'' ''1A2B3C4D5E6F'' []"
    by (simp add: name_collides_def pair_key_exists_def)
  have b: "name_collides ''nova'' [(''Nova'', nova)]"
    by (simp add: name_collides_def lower_Nova)
  show ?thesis
    using register_location_duplicates [OF load_empty_store, of "''Nova''" "''3''" "''1A2B3C4D5E6F''" "''x''"]
      register_location_duplicates [OF load_nova_store, of "''nova''" "''3''" "''1A2B3C4D5E6F''" "''y''"]
      a b
    by (simp add: empty_store_def nova_store_def nova_def)
qed

text \<open>
  C7 as stated fails in its second half: a new name and a pair of galaxy and address that
  no stored record has are refused all the same, when a stored address differs from the
  new one in letter case only.
\<close>

theorem register_location_counterexample:
  "\<not> name_collides ''Vega'' [(''Nova'', nova_lc)] \<and>
   \<not> pair_exists ''3'' ''1A2B3C4D5E6F'' [(''Nova'', nova_lc)] \<and>
   register_location ''Vega'' ''3'' ''1A2B3C4D5E6F'' ''y'' nova_lc_store = Inr (False, nova_lc_store)"
  by (simp add: name_collides_def pair_exists_def register_location_def load_locations_def
      read_json_def nova_lc_store_def nova_lc_def pair_key_def lower_def lower_char_def)

lemma case_variant_key:
  "list_ex (\<lambda>r. galaxy r = g \<and> lower (address r) = lower a) (map snd locs) \<Longrightarrow>
     pair_key_exists g a locs"
  by (force simp: pair_key_exists_def list_ex_iff pair_key_def lower_def)

text \<open>
  C10: the duplicate-pair check of \<open>register_location\<close> compares the lower-cased text
  \<open>galaxy-address\<close> of the new record with that of every stored record, so registration
  fails, with the store unchanged, whenever a stored record has the same galaxy and an
  address that differs in letter case only.
\<close>

theorem register_location_pair_key:
  assumes "load_locations st = Inr locs"
  shows "(pair_key_exists g a locs \<longrightarrow> register_location name g a d st = Inr (False, st)) \<and>
         (list_ex (\<lambda>r. galaxy r = g \<and> lower (address r) = lower a) (map snd locs) \<longrightarrow>
            register_location name g a d st = Inr (False, st))"
  using register_location_fail [OF assms] case_variant_key by blast

lemma load_nova_lc_store: "load_locations nova_lc_store = Inr [(''Nova'', nova_lc)]"
  by (simp add: nova_lc_store_def load_locations_def read_json_def)

theorem register_location_pair_key_witness:
  "address nova_lc \<noteq> ''1A2B3C4D5E6F'' \<and>
   lower (address nova_lc) = lower ''1A2B3C4D5E6F'' \<and>
   register_location ''Vega'' ''3'' ''1A2B3C4D5E6F'' ''y'' nova_lc_store = Inr (False, nova_lc_store)"
proof -
  have a: "lower (address nova_lc) = lower ''1A2B3C4D5E6F''"
    by (simp add: nova_lc_def lower_def lower_char_def)
  then have "list_ex (\<lambda>r. galaxy r = ''3'' \<and> lower (address r) = lower ''1A2B3C4D5E6F'')
      (map snd [(''Nova'', nova_lc)])"
    by (simp add: nova_lc_def)
  with register_location_pair_key [OF load_nova_lc_store, of "''3''" "''1A2B3C4D5E6F''" "''Vega''" "''y''"]
  have "register_location ''Vega'' ''3'' ''1A2B3C4D5E6F'' ''y'' nova_lc_store = Inr (False, nova_lc_store)"
    by blast
  with a show ?thesis by (simp add: nova_lc_def)
qed

section \<open>Modification\<close>

text \<open>
  C1: \<open>modify_location\<close> lower-cases the name it is given and looks that text up among
  the stored names as they are. When the lower-cased argument is not itself a stored
  name, the outcome is not-found, also when a stored name equals the argument up to
  letter case: after registering \<open>Nova\<close>, modifying \<open>Nova\<close> with its current galaxy and
  address does not find the record.
\<close>

theorem modify_location_exact_key:
  assumes "load_locations st = Inr locs" "lower name \<notin> set (map fst locs)"
  shows "modify_location name old_galaxy old_address new_galaxy new_address new_description st =
           Inr (Not_Found, st)"
proof -
  from assms(2) have "map_of locs (lower name) = None"
    by (simp add: map_of_eq_None_iff)
  with assms(1) show ?thesis by (simp add: modify_location_def)
qed

theorem modify_location_exact_key_witness:
  "register_location ''Nova'' ''3'' ''1A2B3C4D5E6F'' ''x'' empty_store = Inr (True, nova_store) \<and>
   name_collides ''Nova'' [(''Nova'', nova)] \<and>
   modify_location ''Nova'' ''3'' ''1A2B3C4D5E6F'' (Some ''9'') None None nova_store =
     Inr (Not_Found, nova_store)"
proof -
  have r: "register_location ''Nova'' ''3'' ''1A2B3C4D5E6F'' ''x'' empty_store = Inr (True, nova_store)"
    using load_empty_store
    by (simp add: register_location_def save_locations_def empty_store_def nova_store_def nova_def)
  have k: "lower ''Nova'' \<notin> set (map fst [(''Nova'', nova)])"
    by (simp add: lower_Nova)
  have c: "name_collides ''Nova'' [(''Nova'', nova)]"
    by (simp add: name_collides_def)
  from r c modify_location_exact_key [OF load_nova_store k] show ?thesis by simp
qed

lemma apply_fields_record:
  "apply_fields new_galaxy new_address new_description loc =
     \<lparr>galaxy = (case new_galaxy of Some g \<Rightarrow> g | None \<Rightarrow> galaxy loc),
      address = (case new_address of Some a \<Rightarrow> a | None \<Rightarrow> address loc),
      num_returns = num_returns loc,
      description = (case new_description of Some d \<Rightarrow> d | None \<Rightarrow> description loc)\<rparr>"
  by (cases loc) (simp add: apply_fields_def split: option.splits)

text \<open>
  C8, as the code has it: for a record that is found and whose galaxy and address equal
  the old values supplied, \<open>modify_location\<close> succeeds; the record takes a new value in
  exactly the fields for which one was supplied and keeps the others (and its counter),
  it stays in its place, and no other record changes. The registry is saved exactly when
  at least one new value was supplied, whether or not that value differs from the
  current one.
\<close>

theorem modify_location_frame:
  assumes "load_locations st = Inr locs" "map_of locs (lower name) = Some loc"
    "galaxy loc = old_galaxy" "address loc = old_address"
  shows "\<exists>i<length locs. locs ! i = (lower name, loc) \<and>
     modify_location name old_galaxy old_address new_galaxy new_address new_description st =
       Inr (Modified,
         if new_galaxy = None \<and> new_address = None \<and> new_description = None then st
         else st\<lparr>content := Stored (locs[i := (lower name,
                    \<lparr>galaxy = (case new_galaxy of Some g \<Rightarrow> g | None \<Rightarrow> galaxy loc),
                     address = (case new_address of Some a \<Rightarrow> a | None \<Rightarrow> address loc),
                     num_returns = num_returns loc,
                     description =
                       (case new_description of Some d \<Rightarrow> d | None \<Rightarrow> description loc)\<rparr>)]),
                 writes := Suc (writes st)\<rparr>)"
proof -
  let ?loc' = "apply_fields new_galaxy new_address new_description loc"
  from update_at [OF assms(2), of ?loc'] obtain i where
    i: "i < length locs" "locs ! i = (lower name, loc)"
       "AList.update (lower name) ?loc' locs = locs[i := (lower name, ?loc')]"
    by blast
  have "modify_location name old_galaxy old_address new_galaxy new_address new_description st =
      Inr (Modified,
        if new_galaxy = None \<and> new_address = None \<and> new_description = None then st
        else st\<lparr>content := Stored (locs[i := (lower name, ?loc')]), writes := Suc (writes st)\<rparr>)"
    using assms i(3) by (simp add: modify_location_def save_locations_def)
  with i(1,2) show ?thesis
    unfolding apply_fields_record by blast
qed

lemma load_lower_store: "load_locations lower_store = Inr [(''nova'', nova)]"
  by (simp add: lower_store_def load_locations_def read_json_def)

theorem modify_location_frame_witness:
  "modify_location ''Nova'' ''3'' ''1A2B3C4D5E6F'' (Some ''9'') None (Some ''home'') lower_store =
     Inr (Modified,
       \<lparr>content = Stored [(''nova'',
           \<lparr>galaxy = ''9'', address = ''1A2B3C4D5E6F'', num_returns = 0, description = ''home''\<rparr>)],
        writes = 2\<rparr>)"
proof -
  have m: "map_of [(''nova'', nova)] (lower ''Nova'') = Some nova"
    by (simp add: lower_Nova)
  have g: "galaxy nova = ''3''" "address nova = ''1A2B3C4D5E6F''"
    by (simp_all add: nova_def)
  from modify_location_frame [OF load_lower_store m g,
      of "Some ''9''" None "Some ''home''"]
  show ?thesis
    by (simp add: lower_store_def nova_def lower_Nova)
qed

text \<open>
  C8 as stated fails: supplying the current galaxy as the new galaxy changes no field,
  and the registry is written all the same.
\<close>

theorem modify_location_counterexample:
  "galaxy nova = ''3'' \<and>
   content lower_store = Stored [(''nova'', nova)] \<and>
   modify_location ''nova'' ''3'' ''1A2B3C4D5E6F'' (Some ''3'') None None lower_store =
     Inr (Modified, \<lparr>content = Stored [(''nova'', nova)], writes = Suc (writes lower_store)\<rparr>)"
  by (simp add: modify_location_def load_locations_def read_json_def lower_store_def nova_def
      lower_def lower_char_def apply_fields_def save_locations_def)

section \<open>The most returned locations\<close>

text \<open>
  C2: a negative integer reaches the slice \<open>sorted_locs[:n]\<close> as it is, which drops the
  last \<open>-n\<close> entries. On a registry with more than \<open>-n\<close> records the result of
  \<open>list_top_locations\<close> is not empty: with six records, \<open>-5\<close> returns the most
  returned one.
\<close>

theorem list_top_locations_negative:
  assumes "load_locations st = Inr locs" "n < 0" "nat (- n) < length locs"
  shows "\<exists>res. list_top_locations (PyInt n) st = Inr res \<and>
           length res = length locs - nat (- n) \<and> res \<noteq> []"
proof -
  let ?sorted = "sort_key (\<lambda>x. - num_returns (snd x)) locs"
  have k: "nat (int (length locs) + n) = length locs - nat (- n)"
    using assms(2,3) by linarith
  from assms have r: "list_top_locations (PyInt n) st = Inr (take (length locs - nat (- n)) ?sorted)"
    by (simp add: list_top_locations_def slice_to_def k)
  have l: "length (take (length locs - nat (- n)) ?sorted) = length locs - nat (- n)"
    by simp
  with assms(3) have "take (length locs - nat (- n)) ?sorted \<noteq> []"
    by (metis length_0_conv zero_less_diff less_numeral_extra(3))
  with r l show ?thesis by blast
qed

lemma load_six_store:
  "load_locations six_store =
     Inr [(''a'', visited ''1'' 1), (''b'', visited ''2'' 7), (''c'', visited ''3'' 7),
          (''d'', visited ''4'' 0), (''e'', visited ''5'' 3), (''f'', visited ''6'' 2)]"
  by (simp add: six_store_def load_locations_def read_json_def)

theorem list_top_locations_negative_witness:
  "list_top_locations (PyInt (- 5)) six_store = Inr [(''b'', visited ''2'' 7)]"
proof -
  have e: "list_top_locations (PyInt (- 5)) six_store = Inr [(''b'', visited ''2'' 7)]"
    by (simp add: list_top_locations_def load_six_store slice_to_def visited_def)
  from list_top_locations_negative [OF load_six_store, of "- 5"] e
  show ?thesis by simp
qed

section \<open>The resolver: effect on the registry\<close>

lemma record_hit_matched:
  "map_of locs m = Some r \<Longrightarrow> record_hit m locs st = matched m r locs st"
  by (simp add: record_hit_def matched_def save_locations_def Let_def)

lemma matched_at:
  assumes "map_of locs m = Some r"
  shows "\<exists>i<length locs. locs ! i = (m, r) \<and>
           matched m r locs st =
             Inr (Some (r\<lparr>num_returns := num_returns r + 1\<rparr>),
                  st\<lparr>content := Stored (locs[i := (m, r\<lparr>num_returns := num_returns r + 1\<rparr>)]),
                     writes := Suc (writes st)\<rparr>)"
  using update_at [OF assms, of "r\<lparr>num_returns := num_returns r + 1\<rparr>"]
  by (auto simp: matched_def)

lemma substring_matches_subset: "set (substring_matches q names) \<subseteq> set names"
  by (auto simp: substring_matches_def)

lemma best_of_mem: "best_of p ps \<in> set (p # ps)"
  by (induction ps arbitrary: p) (simp, fastforce)

lemma best_of_max: "q \<in> set (p # ps) \<Longrightarrow> snd q \<le> snd (best_of p ps)"
proof (induction ps arbitrary: p q)
  case Nil
  then show ?case by simp
next
  case (Cons c cs)
  let ?b = "if snd p < snd c then c else p"
  have b: "best_of p (c # cs) = best_of ?b cs" by simp
  have pb: "snd p \<le> snd (best_of ?b cs)" "snd c \<le> snd (best_of ?b cs)"
    using Cons.IH [of ?b ?b] by (auto split: if_splits)
  from Cons.prems consider "q = p" | "q = c" | "q \<in> set cs" by auto
  then show ?case
  proof cases
    case 1
    with pb b show ?thesis by simp
  next
    case 2
    with pb b show ?thesis by simp
  next
    case 3
    then have "q \<in> set (?b # cs)" by simp
    from Cons.IH [OF this] b show ?thesis by simp
  qed
qed

lemma extractOne_Some:
  assumes "extractOne scorer q choices = Some (m, score)"
  shows "m \<in> set choices \<and> score = scorer q m \<and> (\<forall>c\<in>set choices. scorer q c \<le> score)"
proof -
  let ?all = "map (\<lambda>c. (c, scorer q c)) choices"
  let ?kept = "filter (\<lambda>p. 0 \<le> snd p) ?all"
  from assms obtain p ps where k: "?kept = p # ps" and b: "best_of p ps = (m, score)"
    by (auto simp: extractOne_def split: list.splits)
  from best_of_mem [of p ps] k b have mem: "(m, score) \<in> set ?kept" by simp
  then have 1: "m \<in> set choices" "score = scorer q m" "0 \<le> score" by auto
  have "scorer q c \<le> score" if "c \<in> set choices" for c
  proof (cases "0 \<le> scorer q c")
    case True
    with that have "(c, scorer q c) \<in> set ?kept" by auto
    with k have "(c, scorer q c) \<in> set (p # ps)" by simp
    from best_of_max [OF this] b show ?thesis by simp
  next
    case False
    with 1(3) show ?thesis by simp
  qed
  with 1 show ?thesis by blast
qed

lemma extractOne_None:
  "extractOne scorer q choices = None \<longleftrightarrow> (\<forall>c\<in>set choices. scorer q c < 0)"
proof -
  have "extractOne scorer q choices = None \<longleftrightarrow>
      filter (\<lambda>p. 0 \<le> snd p) (map (\<lambda>c. (c, scorer q c)) choices) = []"
    by (simp add: extractOne_def split: list.splits)
  also have "\<dots> \<longleftrightarrow> (\<forall>c\<in>set choices. scorer q c < 0)"
    by (auto simp: filter_empty_conv)
  finally show ?thesis .
qed

lemma fuzzy_phrase_match_mem:
  "fuzzy_phrase_match fz t q names = Some m \<Longrightarrow> m \<in> set names"
  by (auto simp: fuzzy_phrase_match_def split: option.splits if_splits dest: extractOne_Some)

lemma word_matches_subset: "set (word_matches fz t w names) \<subseteq> set names"
  by (auto simp: word_matches_def)

lemma single_word_match_mem:
  "single_word_match fz t names ws = Some m \<Longrightarrow> m \<in> set names"
proof (induction ws)
  case Nil
  then show ?case by simp
next
  case (Cons w ws)
  show ?case
  proof (cases "length (word_matches fz t w names) = 1")
    case True
    with Cons.prems have "m = word_matches fz t w names ! 0" by simp
    with True have "m \<in> set (word_matches fz t w names)"
      by (metis nth_mem zero_less_one)
    with word_matches_subset show ?thesis by blast
  next
    case False
    with Cons show ?thesis by simp
  qed
qed

lemma single_word_pass_cases:
  "single_word_pass fz t q locs st = Inr (None, st) \<or>
   (\<exists>m r. map_of locs m = Some r \<and> single_word_pass fz t q locs st = matched m r locs st)"
proof (cases "single_word_match fz t (map fst locs) (str_split q)")
  case None
  then show ?thesis by (simp add: single_word_pass_def)
next
  case (Some m)
  from key_lookup [OF single_word_match_mem [OF Some]] obtain r where "map_of locs m = Some r" ..
  with Some show ?thesis
    by (auto simp: single_word_pass_def record_hit_matched)
qed

lemma fuzzy_passes_cases:
  "fuzzy_passes fz t q locs st = Inr (None, st) \<or>
   (\<exists>m r. map_of locs m = Some r \<and> fuzzy_passes fz t q locs st = matched m r locs st)"
proof (cases "fuzzy_phrase_match fz t q (map fst locs)")
  case None
  with single_word_pass_cases [of fz t q locs st] show ?thesis
    by (simp add: fuzzy_passes_def)
next
  case (Some m)
  from key_lookup [OF fuzzy_phrase_match_mem [OF Some]] obtain r where "map_of locs m = Some r" ..
  with Some show ?thesis
    by (auto simp: fuzzy_passes_def record_hit_matched)
qed

lemma find_location_in_string_text:
  assumes "s \<noteq> []" "load_locations st = Inr locs"
  shows "find_location_in_string fz (PyStr s) t st =
     (if 1 \<le> length (substring_matches (lower s) (map fst locs)) \<and>
         length (substring_matches (lower s) (map fst locs)) \<le> 2
      then record_hit (substring_matches (lower s) (map fst locs) ! 0) locs st
      else fuzzy_passes fz t (lower s) locs st)"
  using assms by (simp add: find_location_in_string_def Let_def)

lemma find_location_in_string_cases:
  assumes "load_locations st = Inr locs"
  shows "find_location_in_string fz input_string t st = Inr (None, st) \<or>
     (\<exists>m r. map_of locs m = Some r \<and>
        find_location_in_string fz input_string t st = matched m r locs st)"
proof (cases "\<exists>s. input_string = PyStr s \<and> s \<noteq> []")
  case False
  then have "find_location_in_string fz input_string t st = Inr (None, st)"
    by (cases input_string) (auto simp: find_location_in_string_def)
  then show ?thesis ..
next
  case True
  then obtain s where s: "input_string = PyStr s" "s \<noteq> []" by blast
  let ?sm = "substring_matches (lower s) (map fst locs)"
  show ?thesis
  proof (cases "1 \<le> length ?sm \<and> length ?sm \<le> 2")
    case True
    then have "?sm ! 0 \<in> set ?sm" by (simp add: Suc_le_eq)
    with substring_matches_subset have "?sm ! 0 \<in> set (map fst locs)" by blast
    from key_lookup [OF this] obtain r where "map_of locs (?sm ! 0) = Some r" ..
    with True s assms show ?thesis
      by (auto simp: find_location_in_string_text record_hit_matched)
  next
    case False
    have "find_location_in_string fz input_string t st =
        (if 1 \<le> length ?sm \<and> length ?sm \<le> 2 then record_hit (?sm ! 0) locs st
         else fuzzy_passes fz t (lower s) locs st)"
      unfolding s(1) by (rule find_location_in_string_text [OF s(2) assms])
    with False have "find_location_in_string fz input_string t st =
        fuzzy_passes fz t (lower s) locs st"
      by (auto split: if_splits)
    with fuzzy_passes_cases [of fz t "lower s" locs st] show ?thesis
      by simp
  qed
qed

lemma find_location_in_string_load_fails:
  assumes "load_locations st = Inl e"
  shows "find_location_in_string fz input_string t st = Inr (None, st) \<or>
         find_location_in_string fz input_string t st = Inl e"
  using assms by (cases input_string) (auto simp: find_location_in_string_def)

text \<open>
  C3: an input that is empty or not a string gives no match. Whenever
  \<open>find_location_in_string\<close> returns no match, the store is the one it started from, with
  no write. Whenever it returns a record, the registry loaded, exactly one entry of it
  was replaced by the same record with \<open>num_returns\<close> one higher, every other entry and
  every other field is as before, the registry was saved once, and the record returned is
  the updated one. On a registry that loads, the resolver always returns.
\<close>

theorem find_location_in_string_effect:
  "((\<forall>s. input_string = PyStr s \<longrightarrow> s = []) \<longrightarrow>
      find_location_in_string fz input_string t st = Inr (None, st)) \<and>
   (find_location_in_string fz input_string t st = Inr (None, st') \<longrightarrow> st' = st) \<and>
   (find_location_in_string fz input_string t st = Inr (Some r', st') \<longrightarrow>
      (\<exists>locs i name r. load_locations st = Inr locs \<and> i < length locs \<and>
         locs ! i = (name, r) \<and> r' = r\<lparr>num_returns := num_returns r + 1\<rparr> \<and>
         st' = st\<lparr>content := Stored (locs[i := (name, r')]), writes := Suc (writes st)\<rparr>)) \<and>
   (load_locations st = Inr locs \<longrightarrow>
      (\<exists>res st'. find_location_in_string fz input_string t st = Inr (res, st')))"
proof (intro conjI impI)
  assume "\<forall>s. input_string = PyStr s \<longrightarrow> s = []"
  then show "find_location_in_string fz input_string t st = Inr (None, st)"
    by (cases input_string) (auto simp: find_location_in_string_def)
next
  assume n: "find_location_in_string fz input_string t st = Inr (None, st')"
  show "st' = st"
  proof (cases "load_locations st")
    case (Inl e)
    from find_location_in_string_load_fails [OF Inl, of fz input_string t] n
    show ?thesis by auto
  next
    case (Inr locs)
    from find_location_in_string_cases [OF Inr, of fz input_string t] n
    show ?thesis by (auto simp: matched_def)
  qed
next
  assume h: "find_location_in_string fz input_string t st = Inr (Some r', st')"
  show "\<exists>locs i name r. load_locations st = Inr locs \<and> i < length locs \<and>
         locs ! i = (name, r) \<and> r' = r\<lparr>num_returns := num_returns r + 1\<rparr> \<and>
         st' = st\<lparr>content := Stored (locs[i := (name, r')]), writes := Suc (writes st)\<rparr>"
  proof (cases "load_locations st")
    case (Inl e)
    from find_location_in_string_load_fails [OF Inl, of fz input_string t] h
    show ?thesis by auto
  next
    case (Inr locs)
    from find_location_in_string_cases [OF Inr, of fz input_string t] h
    obtain m r where mr: "map_of locs m = Some r"
      "find_location_in_string fz input_string t st = matched m r locs st"
      by auto
    from matched_at [OF mr(1), of st] obtain i where
      i: "i < length locs" "locs ! i = (m, r)"
        "matched m r locs st =
           Inr (Some (r\<lparr>num_returns := num_returns r + 1\<rparr>),
                st\<lparr>content := Stored (locs[i := (m, r\<lparr>num_returns := num_returns r + 1\<rparr>)]),
                   writes := Suc (writes st)\<rparr>)"
      by blast
    from h mr(2) i(3) have e:
      "Inr (Some r', st') =
         (Inr (Some (r\<lparr>num_returns := num_returns r + 1\<rparr>),
               st\<lparr>content := Stored (locs[i := (m, r\<lparr>num_returns := num_returns r + 1\<rparr>)]),
                  writes := Suc (writes st)\<rparr>) :: py_exception + (location option \<times> store))"
      by metis
    from e have r': "r' = r\<lparr>num_returns := num_returns r + 1\<rparr>"
      by simp
    from e have
      "st' = st\<lparr>content := Stored (locs[i := (m, r\<lparr>num_returns := num_returns r + 1\<rparr>)]),
                 writes := Suc (writes st)\<rparr>"
      by simp
    then have "st' = st\<lparr>content := Stored (locs[i := (m, r')]), writes := Suc (writes st)\<rparr>"
      unfolding r' .
    with r' Inr i(1,2) show ?thesis by blast
  qed
next
  assume "load_locations st = Inr locs"
  from find_location_in_string_cases [OF this, of fz input_string t]
  show "\<exists>res st'. find_location_in_string fz input_string t st = Inr (res, st')"
    by (auto simp: matched_def)
qed

text \<open>The equations that evaluate the resolver on a concrete registry.\<close>

lemmas resolver_defs =
  find_location_in_string_def load_locations_def read_json_def substring_matches_def
  fuzzy_passes_def fuzzy_phrase_match_def extractOne_def single_word_pass_def word_matches_def
  record_hit_def save_locations_def matched_def exact_fuzz_def exact_score_def
  str_split_def is_space_def lower_def lower_char_def sublist_Cons_right Let_def

theorem find_location_in_string_effect_witness:
  "find_location_in_string exact_fuzz (PyStr ''NOVA'') 80 nova_store =
     Inr (Some (nova\<lparr>num_returns := 1\<rparr>),
          \<lparr>content = Stored [(''Nova'', nova\<lparr>num_returns := 1\<rparr>)], writes = 2\<rparr>) \<and>
   find_location_in_string exact_fuzz (PyStr ''zzz'') 80 nova_store = Inr (None, nova_store) \<and>
   find_location_in_string exact_fuzz PyNone 80 nova_store = Inr (None, nova_store)"
proof -
  have 1: "find_location_in_string exact_fuzz (PyStr ''NOVA'') 80 nova_store =
     Inr (Some (nova\<lparr>num_returns := 1\<rparr>),
          \<lparr>content = Stored [(''Nova'', nova\<lparr>num_returns := 1\<rparr>)], writes = 2\<rparr>)"
    by (simp add: resolver_defs nova_store_def nova_def)
  have 2: "find_location_in_string exact_fuzz (PyStr ''zzz'') 80 nova_store = Inr (None, nova_store)"
    by (simp add: resolver_defs nova_store_def)
  from find_location_in_string_effect [of PyNone exact_fuzz 80 nova_store]
  have 3: "find_location_in_string exact_fuzz PyNone 80 nova_store = Inr (None, nova_store)"
    by simp
  from 1 2 3 show ?thesis by simp
qed

section \<open>The resolver: the substring pass\<close>

text \<open>
  C5: on a non-empty text and a registry that loads, the candidates of the substring pass
  are the stored names, in registry order, whose lower-cased form contains the lower-cased
  input. With one or two candidates the resolver matches the first candidate; with none
  or more than two its result is that of the fuzzy passes.
\<close>

theorem substring_pass:
  assumes "s \<noteq> []" "load_locations st = Inr locs"
  shows "let cands = filter (\<lambda>name. sublist (lower s) (lower name)) (map fst locs) in
     (length cands = 1 \<or> length cands = 2 \<longrightarrow>
        (\<exists>r. map_of locs (hd cands) = Some r \<and>
           find_location_in_string fz (PyStr s) t st = matched (hd cands) r locs st)) \<and>
     (length cands \<noteq> 1 \<and> length cands \<noteq> 2 \<longrightarrow>
        find_location_in_string fz (PyStr s) t st = fuzzy_passes fz t (lower s) locs st)"
proof -
  let ?sm = "substring_matches (lower s) (map fst locs)"
  have e: "find_location_in_string fz (PyStr s) t st =
      (if 1 \<le> length ?sm \<and> length ?sm \<le> 2 then record_hit (?sm ! 0) locs st
       else fuzzy_passes fz t (lower s) locs st)"
    by (rule find_location_in_string_text [OF assms])
  have a: "\<exists>r. map_of locs (hd ?sm) = Some r \<and>
      find_location_in_string fz (PyStr s) t st = matched (hd ?sm) r locs st"
    if l: "length ?sm = 1 \<or> length ?sm = 2"
  proof -
    from l have ne: "?sm \<noteq> []" by auto
    then have h: "?sm ! 0 = hd ?sm" by (simp add: hd_conv_nth)
    from ne have "hd ?sm \<in> set ?sm" by simp
    with substring_matches_subset have "hd ?sm \<in> set (map fst locs)" by blast
    from key_lookup [OF this] obtain r where r: "map_of locs (hd ?sm) = Some r" ..
    from l have "1 \<le> length ?sm \<and> length ?sm \<le> 2" by auto
    with e h have "find_location_in_string fz (PyStr s) t st = record_hit (hd ?sm) locs st"
      by simp
    with r show ?thesis by (simp add: record_hit_matched)
  qed
  have b: "find_location_in_string fz (PyStr s) t st = fuzzy_passes fz t (lower s) locs st"
    if "length ?sm \<noteq> 1 \<and> length ?sm \<noteq> 2"
  proof -
    from that have "\<not> (1 \<le> length ?sm \<and> length ?sm \<le> 2)" by auto
    with e show ?thesis by (auto split: if_splits)
  qed
  from a b show ?thesis
    unfolding substring_matches_def Let_def by blast
qed

lemma load_two_store:
  "load_locations two_store = Inr [(''Nova Prime'', nova), (''Nova Minor'', nova_lc)]"
  by (simp add: two_store_def load_locations_def read_json_def)

theorem substring_pass_witness:
  "filter (\<lambda>name. sublist (lower ''nova'') (lower name)) [''Nova Prime'', ''Nova Minor'']
     = [''Nova Prime'', ''Nova Minor''] \<and>
   find_location_in_string exact_fuzz (PyStr ''nova'') 80 two_store =
     Inr (Some (nova\<lparr>num_returns := 1\<rparr>),
       \<lparr>content = Stored [(''Nova Prime'', nova\<lparr>num_returns := 1\<rparr>), (''Nova Minor'', nova_lc)],
        writes = 1\<rparr>)"
proof -
  have c: "filter (\<lambda>name. sublist (lower ''nova'') (lower name))
      (map fst [(''Nova Prime'', nova), (''Nova Minor'', nova_lc)]) = [''Nova Prime'', ''Nova Minor'']"
    by (simp add: lower_def lower_char_def sublist_Cons_right)
  from substring_pass [OF _ load_two_store, of "''nova''" exact_fuzz 80]
  show ?thesis
    unfolding c Let_def by (simp add: c [simplified] matched_def two_store_def nova_def)
qed

section \<open>The resolver: the full-phrase fuzzy pass\<close>

lemma find_location_in_string_fuzzy:
  assumes "s \<noteq> []" "load_locations st = Inr locs"
    "length (substring_matches (lower s) (map fst locs)) \<noteq> 1"
    "length (substring_matches (lower s) (map fst locs)) \<noteq> 2"
  shows "find_location_in_string fz (PyStr s) t st = fuzzy_passes fz t (lower s) locs st"
proof -
  let ?sm = "substring_matches (lower s) (map fst locs)"
  from assms(3,4) have "\<not> (1 \<le> length ?sm \<and> length ?sm \<le> 2)" by auto
  with find_location_in_string_text [OF assms(1,2), of fz t] show ?thesis
    by (auto split: if_splits)
qed

text \<open>
  C6: when the substring pass falls through, the resolver takes from \<open>extractOne\<close> a
  stored name whose partial-ratio score against the lower-cased input is the highest of
  all stored names. It matches that name exactly when the score reaches the threshold and,
  in addition, the lower-cased name is contained in the lower-cased input or some word of
  the lower-cased input has a full ratio of at least the threshold to the lower-cased
  name. Otherwise, and when \<open>extractOne\<close> returns nothing, the result is that of the
  single-word pass.
\<close>

theorem fuzzy_phrase_pass:
  assumes "s \<noteq> []" "load_locations st = Inr locs"
    "length (substring_matches (lower s) (map fst locs)) \<noteq> 1"
    "length (substring_matches (lower s) (map fst locs)) \<noteq> 2"
  shows "case extractOne (partial_ratio fz) (lower s) (map fst locs) of
      None \<Rightarrow>
        find_location_in_string fz (PyStr s) t st = single_word_pass fz t (lower s) locs st
    | Some (m, score) \<Rightarrow>
        m \<in> set (map fst locs) \<and> score = partial_ratio fz (lower s) m \<and>
        (\<forall>n\<in>set (map fst locs). partial_ratio fz (lower s) n \<le> score) \<and>
        (if t \<le> score \<and>
            (sublist (lower m) (lower s) \<or>
             (\<exists>w\<in>set (str_split (lower s)). t \<le> ratio fz w (lower m)))
         then \<exists>r. map_of locs m = Some r \<and>
                find_location_in_string fz (PyStr s) t st = matched m r locs st
         else find_location_in_string fz (PyStr s) t st =
                single_word_pass fz t (lower s) locs st)"
proof (cases "extractOne (partial_ratio fz) (lower s) (map fst locs)")
  case None
  then have "fuzzy_phrase_match fz t (lower s) (map fst locs) = None"
    by (simp add: fuzzy_phrase_match_def)
  with find_location_in_string_fuzzy [OF assms, of fz t] None show ?thesis
    by (simp add: fuzzy_passes_def)
next
  case (Some p)
  then obtain m score where
    e: "extractOne (partial_ratio fz) (lower s) (map fst locs) = Some (m, score)"
    by (cases p) simp
  note x = extractOne_Some [OF e]
  let ?accept = "t \<le> score \<and>
      (sublist (lower m) (lower s) \<or> (\<exists>w\<in>set (str_split (lower s)). t \<le> ratio fz w (lower m)))"
  have d: "fuzzy_phrase_match fz t (lower s) (map fst locs) = (if ?accept then Some m else None)"
    unfolding fuzzy_phrase_match_def e list_ex_iff by simp
  have c: "if ?accept
      then \<exists>r. map_of locs m = Some r \<and>
             find_location_in_string fz (PyStr s) t st = matched m r locs st
      else find_location_in_string fz (PyStr s) t st = single_word_pass fz t (lower s) locs st"
  proof (cases ?accept)
    case True
    from x have "m \<in> set (map fst locs)" by (rule conjunct1)
    from key_lookup [OF this] obtain r where r: "map_of locs m = Some r" ..
    from d have "fuzzy_phrase_match fz t (lower s) (map fst locs) = Some m"
      unfolding if_P [OF True] .
    then have "fuzzy_passes fz t (lower s) locs st = matched m r locs st"
      by (simp add: fuzzy_passes_def record_hit_matched [OF r])
    with find_location_in_string_fuzzy [OF assms, of fz t]
    have "find_location_in_string fz (PyStr s) t st = matched m r locs st"
      by (rule trans)
    with r have "\<exists>r. map_of locs m = Some r \<and>
        find_location_in_string fz (PyStr s) t st = matched m r locs st"
      by blast
    then show ?thesis unfolding if_P [OF True] .
  next
    case False
    from d have "fuzzy_phrase_match fz t (lower s) (map fst locs) = None"
      unfolding if_not_P [OF False] .
    then have "fuzzy_passes fz t (lower s) locs st = single_word_pass fz t (lower s) locs st"
      by (simp add: fuzzy_passes_def)
    with find_location_in_string_fuzzy [OF assms, of fz t]
    have "find_location_in_string fz (PyStr s) t st = single_word_pass fz t (lower s) locs st"
      by (rule trans)
    then show ?thesis unfolding if_not_P [OF False] .
  qed
  from x c show ?thesis
    unfolding e option.case prod.case by (intro conjI) blast+
qed

lemma load_three_store:
  "load_locations three_store =
     Inr [(''nova'', nova), (''nova a'', visited ''1'' 0), (''nova b'', visited ''2'' 0)]"
  by (simp add: three_store_def load_locations_def read_json_def)

theorem fuzzy_phrase_pass_witness:
  "length (substring_matches (lower ''Nova'') [''nova'', ''nova a'', ''nova b'']) = 3 \<and>
   extractOne (partial_ratio exact_fuzz) (lower ''Nova'') [''nova'', ''nova a'', ''nova b'']
     = Some (''nova'', 100) \<and>
   find_location_in_string exact_fuzz (PyStr ''Nova'') 80 three_store =
     Inr (Some (nova\<lparr>num_returns := 1\<rparr>),
       \<lparr>content = Stored [(''nova'', nova\<lparr>num_returns := 1\<rparr>), (''nova a'', visited ''1'' 0),
                           (''nova b'', visited ''2'' 0)],
        writes = 1\<rparr>)"
proof -
  have l: "length (substring_matches (lower ''Nova'')
      (map fst [(''nova'', nova), (''nova a'', visited ''1'' 0), (''nova b'', visited ''2'' 0)])) = 3"
    by (simp add: substring_matches_def lower_def lower_char_def sublist_Cons_right)
  have x: "extractOne (partial_ratio exact_fuzz) (lower ''Nova'')
      (map fst [(''nova'', nova), (''nova a'', visited ''1'' 0), (''nova b'', visited ''2'' 0)])
        = Some (''nova'', 100)"
    by (simp add: extractOne_def exact_fuzz_def exact_score_def lower_def lower_char_def)
  have a: "sublist (lower ''nova'') (lower ''Nova'')"
    by (simp add: lower_def lower_char_def)
  from l have l1: "length (substring_matches (lower ''Nova'')
      (map fst [(''nova'', nova), (''nova a'', visited ''1'' 0), (''nova b'', visited ''2'' 0)])) \<noteq> 1"
    and l2: "length (substring_matches (lower ''Nova'')
      (map fst [(''nova'', nova), (''nova a'', visited ''1'' 0), (''nova b'', visited ''2'' 0)])) \<noteq> 2"
    by simp_all
  from fuzzy_phrase_pass [OF _ load_three_store l1 l2, of exact_fuzz 80] a
  have "find_location_in_string exact_fuzz (PyStr ''Nova'') 80 three_store =
      matched ''nova'' nova [(''nova'', nova), (''nova a'', visited ''1'' 0), (''nova b'', visited ''2'' 0)]
        three_store"
    unfolding x by simp
  with l x show ?thesis
    by (simp add: matched_def three_store_def nova_def)
qed

section \<open>The resolver: the single-word pass\<close>

lemma word_matches_pairs:
  "word_matches fz t w names = map fst (qualifying_pairs fz t w names)"
  by (simp add: word_matches_def qualifying_pairs_def map_concat comp_def)

lemma single_word_match_first:
  "i < length ws \<Longrightarrow> length (word_matches fz t (ws ! i) names) = 1 \<Longrightarrow>
   \<forall>j<i. length (word_matches fz t (ws ! j) names) \<noteq> 1 \<Longrightarrow>
     single_word_match fz t names ws = Some (word_matches fz t (ws ! i) names ! 0)"
proof (induction ws arbitrary: i)
  case Nil
  then show ?case by simp
next
  case (Cons w ws)
  show ?case
  proof (cases i)
    case 0
    with Cons.prems(2) show ?thesis by simp
  next
    case (Suc k)
    with Cons.prems(3) have w: "length (word_matches fz t w names) \<noteq> 1" by force
    from Suc Cons.prems have k: "k < length ws" "length (word_matches fz t (ws ! k) names) = 1"
      by simp_all
    have "\<forall>j<k. length (word_matches fz t (ws ! j) names) \<noteq> 1"
    proof (intro allI impI)
      fix j assume "j < k"
      then have "Suc j < i" using Suc by simp
      with Cons.prems(3) have "length (word_matches fz t ((w # ws) ! Suc j) names) \<noteq> 1"
        by blast
      then show "length (word_matches fz t (ws ! j) names) \<noteq> 1" by simp
    qed
    from Cons.IH [OF k this] w Suc show ?thesis by simp
  qed
qed

lemma single_word_match_none:
  "\<forall>i<length ws. length (word_matches fz t (ws ! i) names) \<noteq> 1 \<Longrightarrow>
     single_word_match fz t names ws = None"
proof (induction ws)
  case Nil
  then show ?case by simp
next
  case (Cons w ws)
  from Cons.prems have w: "length (word_matches fz t w names) \<noteq> 1" by force
  have "\<forall>i<length ws. length (word_matches fz t (ws ! i) names) \<noteq> 1"
  proof (intro allI impI)
    fix i assume "i < length ws"
    then have "Suc i < length (w # ws)" by simp
    with Cons.prems have "length (word_matches fz t ((w # ws) ! Suc i) names) \<noteq> 1"
      by blast
    then show "length (word_matches fz t (ws ! i) names) \<noteq> 1" by simp
  qed
  from Cons.IH [OF this] w show ?case by simp
qed

lemma qualifying_pairs_Cons:
  "qualifying_pairs fz t w (n # ns) =
     map (\<lambda>lw. (n, lw)) (filter (\<lambda>lw. t \<le> ratio fz w lw) (str_split n)) @
     qualifying_pairs fz t w ns"
  by (simp add: qualifying_pairs_def)

lemma no_pairs_no_names:
  "qualifying_pairs fz t w ns = [] \<Longrightarrow>
     filter (\<lambda>n. list_ex (\<lambda>lw. t \<le> ratio fz w lw) (str_split n)) ns = []"
  by (induction ns) (auto simp: qualifying_pairs_Cons list_ex_iff filter_empty_conv)

lemma one_pair_one_name:
  "map fst (qualifying_pairs fz t w ns) = [m] \<Longrightarrow> qualifying_names fz t w ns = [m]"
proof (induction ns)
  case Nil
  then show ?case by (simp add: qualifying_pairs_def)
next
  case (Cons n ns)
  let ?q = "filter (\<lambda>lw. t \<le> ratio fz w lw) (str_split n)"
  from Cons.prems have e: "map (\<lambda>lw. n) ?q @ map fst (qualifying_pairs fz t w ns) = [m]"
    by (simp add: qualifying_pairs_Cons comp_def)
  show ?case
  proof (cases "?q = []")
    case True
    with e have "map fst (qualifying_pairs fz t w ns) = [m]" by simp
    from Cons.IH [OF this] True show ?thesis
      by (simp add: qualifying_names_def list_ex_iff filter_empty_conv)
  next
    case False
    with e have "map (\<lambda>lw. n) ?q = [m]" "qualifying_pairs fz t w ns = []"
      by (auto simp: append_eq_Cons_conv)
    then have "n = m" "filter (\<lambda>n. list_ex (\<lambda>lw. t \<le> ratio fz w lw) (str_split n)) ns = []"
      using no_pairs_no_names by (auto simp: map_eq_Cons_conv)
    with False show ?thesis
      by (simp add: qualifying_names_def list_ex_iff filter_empty_conv)
  qed
qed

text \<open>
  C4, as the code has it: when the first two passes fall through, the resolver scans the
  words of the lower-cased input in order and collects, for a word, one entry for every
  pair of a stored name and one of its words whose full ratio to the input word reaches
  the threshold. The first input word with exactly one such pair decides: its name is the
  only name that qualifies, and the resolver matches it without looking at later words.
  A word with no pair or with more than one pair is passed over, and with no deciding word
  there is no match. A name is counted once for each of its qualifying words.
\<close>

theorem single_word_pass_pairs:
  assumes "s \<noteq> []" "load_locations st = Inr locs"
    "length (substring_matches (lower s) (map fst locs)) \<noteq> 1"
    "length (substring_matches (lower s) (map fst locs)) \<noteq> 2"
    "fuzzy_phrase_match fz t (lower s) (map fst locs) = None"
  shows "(\<forall>i<length (str_split (lower s)). \<forall>m.
            map fst (qualifying_pairs fz t (str_split (lower s) ! i) (map fst locs)) = [m] \<and>
            (\<forall>j<i. length (qualifying_pairs fz t (str_split (lower s) ! j) (map fst locs)) \<noteq> 1)
            \<longrightarrow>
              qualifying_names fz t (str_split (lower s) ! i) (map fst locs) = [m] \<and>
              (\<exists>r. map_of locs m = Some r \<and>
                 find_location_in_string fz (PyStr s) t st = matched m r locs st)) \<and>
         ((\<forall>i<length (str_split (lower s)).
             length (qualifying_pairs fz t (str_split (lower s) ! i) (map fst locs)) \<noteq> 1) \<longrightarrow>
            find_location_in_string fz (PyStr s) t st = Inr (None, st))"
proof -
  let ?ws = "str_split (lower s)"
  let ?names = "map fst locs"
  have f: "find_location_in_string fz (PyStr s) t st = single_word_pass fz t (lower s) locs st"
    using find_location_in_string_fuzzy [OF assms(1-4), of fz t] assms(5)
    by (simp add: fuzzy_passes_def)
  have len: "length (word_matches fz t w ?names) = length (qualifying_pairs fz t w ?names)" for w
    by (simp add: word_matches_pairs)
  have a: "qualifying_names fz t (?ws ! i) ?names = [m] \<and>
      (\<exists>r. map_of locs m = Some r \<and>
         find_location_in_string fz (PyStr s) t st = matched m r locs st)"
    if i: "i < length ?ws"
      and m: "map fst (qualifying_pairs fz t (?ws ! i) ?names) = [m]"
      and before: "\<forall>j<i. length (qualifying_pairs fz t (?ws ! j) ?names) \<noteq> 1"
    for i m
  proof -
    from m have wm: "word_matches fz t (?ws ! i) ?names = [m]"
      by (simp add: word_matches_pairs)
    then have l: "length (word_matches fz t (?ws ! i) ?names) = 1" by simp
    from before have b: "\<forall>j<i. length (word_matches fz t (?ws ! j) ?names) \<noteq> 1"
      by (simp add: len)
    from single_word_match_first [OF i l b] wm
    have sm: "single_word_match fz t ?names ?ws = Some m" by simp
    from key_lookup [OF single_word_match_mem [OF sm]] obtain r where r: "map_of locs m = Some r" ..
    from sm r have "single_word_pass fz t (lower s) locs st = matched m r locs st"
      by (simp add: single_word_pass_def record_hit_matched)
    with f r have "\<exists>r. map_of locs m = Some r \<and>
        find_location_in_string fz (PyStr s) t st = matched m r locs st"
      by auto
    with one_pair_one_name [OF m] show ?thesis by blast
  qed
  have b: "find_location_in_string fz (PyStr s) t st = Inr (None, st)"
    if "\<forall>i<length ?ws. length (qualifying_pairs fz t (?ws ! i) ?names) \<noteq> 1"
  proof -
    from that have "\<forall>i<length ?ws. length (word_matches fz t (?ws ! i) ?names) \<noteq> 1"
      by (simp add: len)
    from single_word_match_none [OF this] f show ?thesis
      by (simp add: single_word_pass_def)
  qed
  show ?thesis
  proof (intro conjI allI impI)
    fix i m
    assume i: "i < length ?ws"
      and h: "map fst (qualifying_pairs fz t (?ws ! i) ?names) = [m] \<and>
        (\<forall>j<i. length (qualifying_pairs fz t (?ws ! j) ?names) \<noteq> 1)"
    note r = a [OF i conjunct1 [OF h] conjunct2 [OF h]]
    from r show "qualifying_names fz t (?ws ! i) ?names = [m]"
      by (rule conjunct1)
    from r show "\<exists>r. map_of locs m = Some r \<and>
         find_location_in_string fz (PyStr s) t st = matched m r locs st"
      by (rule conjunct2)
  next
    assume "\<forall>i<length ?ws. length (qualifying_pairs fz t (?ws ! i) ?names) \<noteq> 1"
    then show "find_location_in_string fz (PyStr s) t st = Inr (None, st)"
      by (rule b)
  qed
qed

lemma load_prime_store:
  "load_locations prime_store = Inr [(''nova prime'', nova), (''vega prime'', nova_lc)]"
  by (simp add: prime_store_def load_locations_def read_json_def)

lemma prime_words: "str_split (lower ''go prime Nova'') = [''go'', ''prime'', ''nova'']"
  by (simp add: str_split_def lower_def lower_char_def is_space_def)

lemma prime_pairs:
  "qualifying_pairs exact_fuzz 80 ''go'' [''nova prime'', ''vega prime''] = []"
  "qualifying_pairs exact_fuzz 80 ''prime'' [''nova prime'', ''vega prime''] =
     [(''nova prime'', ''prime''), (''vega prime'', ''prime'')]"
  "qualifying_pairs exact_fuzz 80 ''nova'' [''nova prime'', ''vega prime''] =
     [(''nova prime'', ''nova'')]"
  by (simp_all add: qualifying_pairs_def exact_fuzz_def exact_score_def str_split_def is_space_def)

theorem single_word_pass_pairs_witness:
  "find_location_in_string exact_fuzz (PyStr ''go prime Nova'') 80 prime_store =
     Inr (Some (nova\<lparr>num_returns := 1\<rparr>),
       \<lparr>content = Stored [(''nova prime'', nova\<lparr>num_returns := 1\<rparr>), (''vega prime'', nova_lc)],
        writes = 1\<rparr>)"
proof -
  let ?names = "map fst [(''nova prime'', nova), (''vega prime'', nova_lc)]"
  have l: "substring_matches (lower ''go prime Nova'') ?names = []"
    by (simp add: substring_matches_def lower_def lower_char_def sublist_Cons_right)
  have l1: "length (substring_matches (lower ''go prime Nova'') ?names) \<noteq> 1"
    and l2: "length (substring_matches (lower ''go prime Nova'') ?names) \<noteq> 2"
    unfolding l by simp_all
  have p: "fuzzy_phrase_match exact_fuzz 80 (lower ''go prime Nova'') ?names = None"
    by (simp add: fuzzy_phrase_match_def extractOne_def exact_fuzz_def exact_score_def
        lower_def lower_char_def)
  have i: "2 < length (str_split (lower ''go prime Nova''))"
    unfolding prime_words by simp
  have q: "map fst (qualifying_pairs exact_fuzz 80 (str_split (lower ''go prime Nova'') ! 2) ?names)
      = [''nova prime'']"
    unfolding prime_words by (simp add: prime_pairs)
  have b: "\<forall>j<2. length (qualifying_pairs exact_fuzz 80
      (str_split (lower ''go prime Nova'') ! j) ?names) \<noteq> 1"
    unfolding prime_words by (simp add: prime_pairs less_Suc_eq numeral_2_eq_2)
  have ne: "''go prime Nova'' \<noteq> []" by simp
  have "\<forall>i<length (str_split (lower ''go prime Nova'')). \<forall>m.
      map fst (qualifying_pairs exact_fuzz 80 (str_split (lower ''go prime Nova'') ! i) ?names) = [m] \<and>
      (\<forall>j<i. length (qualifying_pairs exact_fuzz 80
         (str_split (lower ''go prime Nova'') ! j) ?names) \<noteq> 1)
      \<longrightarrow>
        qualifying_names exact_fuzz 80 (str_split (lower ''go prime Nova'') ! i) ?names = [m] \<and>
        (\<exists>r. map_of [(''nova prime'', nova), (''vega prime'', nova_lc)] m = Some r \<and>
           find_location_in_string exact_fuzz (PyStr ''go prime Nova'') 80 prime_store =
             matched m r [(''nova prime'', nova), (''vega prime'', nova_lc)] prime_store)"
    using single_word_pass_pairs [OF ne load_prime_store l1 l2 p] by (rule conjunct1)
  from this [rule_format, of 2 "''nova prime''"] i q b
  have "\<exists>r. map_of [(''nova prime'', nova), (''vega prime'', nova_lc)] ''nova prime'' = Some r \<and>
      find_location_in_string exact_fuzz (PyStr ''go prime Nova'') 80 prime_store =
        matched ''nova prime'' r [(''nova prime'', nova), (''vega prime'', nova_lc)] prime_store"
    by blast
  then have "find_location_in_string exact_fuzz (PyStr ''go prime Nova'') 80 prime_store =
      matched ''nova prime'' nova [(''nova prime'', nova), (''vega prime'', nova_lc)] prime_store"
    by simp
  then show ?thesis
    by (simp add: matched_def prime_store_def nova_def)
qed

text \<open>
  C4 as stated fails: for the word \<open>nova\<close> exactly one distinct name, \<open>nova nova\<close>,
  qualifies, but both of its words do, so the name is collected twice and the word gives
  no match.
\<close>

lemma load_twin_store: "load_locations twin_store = Inr [(''nova nova'', nova)]"
  by (simp add: twin_store_def load_locations_def read_json_def)

theorem single_word_pass_counterexample:
  "qualifying_names exact_fuzz 80 ''nova'' [''nova nova''] = [''nova nova''] \<and>
   str_split (lower ''go nova'') = [''go'', ''nova''] \<and>
   substring_matches (lower ''go nova'') [''nova nova''] = [] \<and>
   fuzzy_phrase_match exact_fuzz 80 (lower ''go nova'') [''nova nova''] = None \<and>
   find_location_in_string exact_fuzz (PyStr ''go nova'') 80 twin_store = Inr (None, twin_store)"
proof -
  have lo: "lower ''go nova'' = ''go nova''"
    by (simp add: lower_def lower_char_def)
  have sp: "str_split ''go nova'' = [''go'', ''nova'']" "str_split ''nova nova'' = [''nova'', ''nova'']"
    by (simp_all add: str_split_def is_space_def)
  have 1: "qualifying_names exact_fuzz 80 ''nova'' [''nova nova''] = [''nova nova'']"
    by (simp add: qualifying_names_def sp exact_fuzz_def exact_score_def)
  have 3: "substring_matches (lower ''go nova'') [''nova nova''] = []"
    unfolding lo by (simp add: substring_matches_def lower_def lower_char_def sublist_Cons_right)
  have 4: "fuzzy_phrase_match exact_fuzz 80 (lower ''go nova'') [''nova nova''] = None"
    unfolding lo by (simp add: fuzzy_phrase_match_def extractOne_def exact_fuzz_def exact_score_def)
  have w: "word_matches exact_fuzz 80 ''go'' [''nova nova''] = []"
    "word_matches exact_fuzz 80 ''nova'' [''nova nova''] = [''nova nova'', ''nova nova'']"
    by (simp_all add: word_matches_def sp exact_fuzz_def exact_score_def)
  have 5: "single_word_match exact_fuzz 80 [''nova nova''] [''go'', ''nova''] = None"
    by (simp add: w)
  have "find_location_in_string exact_fuzz (PyStr ''go nova'') 80 twin_store =
      fuzzy_passes exact_fuzz 80 (lower ''go nova'') [(''nova nova'', nova)] twin_store"
    using 3 by (simp add: find_location_in_string_text [OF _ load_twin_store])
  also have "\<dots> = Inr (None, twin_store)"
    using 4 5 by (simp add: fuzzy_passes_def single_word_pass_def lo sp)
  finally have 6: "find_location_in_string exact_fuzz (PyStr ''go nova'') 80 twin_store =
      Inr (None, twin_store)" .
  from 1 lo sp(1) 3 4 6 show ?thesis by simp
qed

section \<open>Further properties\<close>

lemma ranked_descending:
  "sorted_wrt (\<lambda>x y. num_returns (snd y) \<le> num_returns (snd x))
     (sort_key (\<lambda>x. - num_returns (snd x)) locs)"
proof -
  have "sorted (map (\<lambda>x. - num_returns (snd x)) (sort_key (\<lambda>x. - num_returns (snd x)) locs))"
    by (rule sorted_sort_key)
  then show ?thesis by (simp add: sorted_map)
qed

lemma ranked_stable:
  "filter (\<lambda>x. num_returns (snd x) = k) (sort_key (\<lambda>x. - num_returns (snd x)) locs) =
   filter (\<lambda>x. num_returns (snd x) = k) locs"
  using sort_key_stable [of "\<lambda>x. - num_returns (snd x)" "- k" locs] by simp

text \<open>
  X1: on a registry that loads, an argument that \<open>int\<close> does not parse, or that parses
  to 0, gives the empty list; an argument that parses to \<open>n \<ge> 0\<close> gives the first \<open>n\<close>
  entries (all of them when there are fewer) of a ranking that holds the registry's
  records, in descending order of \<open>num_returns\<close>, records with equal counters in
  registry order.
\<close>

theorem list_top_locations_top:
  assumes "load_locations st = Inr locs"
  shows "(py_int num = None \<or> py_int num = Some 0 \<longrightarrow> list_top_locations num st = Inr []) \<and>
         (\<forall>n. py_int num = Some n \<and> 0 \<le> n \<longrightarrow>
            (\<exists>ranked. list_top_locations num st = Inr (take (nat n) ranked) \<and>
               mset ranked = mset locs \<and>
               sorted_wrt (\<lambda>x y. num_returns (snd y) \<le> num_returns (snd x)) ranked \<and>
               (\<forall>k. filter (\<lambda>x. num_returns (snd x) = k) ranked =
                    filter (\<lambda>x. num_returns (snd x) = k) locs)))"
proof (intro conjI allI impI)
  assume "py_int num = None \<or> py_int num = Some 0"
  with assms show "list_top_locations num st = Inr []"
    by (auto simp: list_top_locations_def slice_to_def)
next
  fix n
  assume n: "py_int num = Some n \<and> 0 \<le> n"
  let ?ranked = "sort_key (\<lambda>x. - num_returns (snd x)) locs"
  from n assms have "list_top_locations num st = Inr (take (nat n) ?ranked)"
    by (simp add: list_top_locations_def slice_to_def)
  moreover have "mset ?ranked = mset locs" by simp
  moreover note ranked_descending [of locs]
  moreover have "\<forall>k. filter (\<lambda>x. num_returns (snd x) = k) ?ranked =
      filter (\<lambda>x. num_returns (snd x) = k) locs"
    by (simp add: ranked_stable)
  ultimately show "\<exists>ranked. list_top_locations num st = Inr (take (nat n) ranked) \<and>
      mset ranked = mset locs \<and>
      sorted_wrt (\<lambda>x y. num_returns (snd y) \<le> num_returns (snd x)) ranked \<and>
      (\<forall>k. filter (\<lambda>x. num_returns (snd x) = k) ranked =
           filter (\<lambda>x. num_returns (snd x) = k) locs)"
    by blast
qed

theorem list_top_locations_top_witness:
  "list_top_locations (PyStr ''abc'') six_store = Inr [] \<and>
   list_top_locations (PyInt 0) six_store = Inr [] \<and>
   list_top_locations (PyStr '' 3 '') six_store =
     Inr [(''b'', visited ''2'' 7), (''c'', visited ''3'' 7), (''e'', visited ''5'' 3)]"
proof -
  have a: "py_int (PyStr ''abc'') = None"
    by (simp add: int_of_str_def trim_def is_c_space_def parse_nat_def digit_of_def)
  have b: "py_int (PyInt 0) = Some 0" by simp
  have c: "list_top_locations (PyStr '' 3 '') six_store =
     Inr [(''b'', visited ''2'' 7), (''c'', visited ''3'' 7), (''e'', visited ''5'' 3)]"
    by (simp add: list_top_locations_def load_six_store slice_to_def visited_def
        int_of_str_def trim_def is_c_space_def parse_nat_def digit_of_def)
  from list_top_locations_top [OF load_six_store, of "PyStr ''abc''"] a
    list_top_locations_top [OF load_six_store, of "PyInt 0"] b c
  show ?thesis by simp
qed

text \<open>
  X2: a record that is found under the lower-cased name but whose galaxy or address is
  not the old value supplied is left alone: the outcome is the stale mismatch and the store
  is unchanged. Modifying the galaxy of \<open>nova\<close> and repeating the call with the old
  galaxy shows it.
\<close>

theorem modify_location_stale:
  assumes "load_locations st = Inr locs" "map_of locs (lower name) = Some loc"
    "galaxy loc \<noteq> old_galaxy \<or> address loc \<noteq> old_address"
  shows "modify_location name old_galaxy old_address new_galaxy new_address new_description st =
           Inr (Stale_Mismatch, st)"
  using assms by (auto simp: modify_location_def)

theorem modify_location_stale_witness:
  "modify_location ''nova'' ''3'' ''1A2B3C4D5E6F'' (Some ''9'') None None lower_store =
     Inr (Modified, \<lparr>content = Stored [(''nova'', nova\<lparr>galaxy := ''9''\<rparr>)], writes = 2\<rparr>) \<and>
   modify_location ''nova'' ''3'' ''1A2B3C4D5E6F'' (Some ''9'') None None
       \<lparr>content = Stored [(''nova'', nova\<lparr>galaxy := ''9''\<rparr>)], writes = 2\<rparr> =
     Inr (Stale_Mismatch, \<lparr>content = Stored [(''nova'', nova\<lparr>galaxy := ''9''\<rparr>)], writes = 2\<rparr>)"
proof -
  let ?st = "\<lparr>content = Stored [(''nova'', nova\<lparr>galaxy := ''9''\<rparr>)], writes = 2\<rparr>"
  have 1: "modify_location ''nova'' ''3'' ''1A2B3C4D5E6F'' (Some ''9'') None None lower_store =
      Inr (Modified, ?st)"
    by (simp add: modify_location_def load_locations_def read_json_def lower_Nova nova_def
        apply_fields_def save_locations_def lower_store_def Let_def)
  have l: "load_locations ?st = Inr [(''nova'', nova\<lparr>galaxy := ''9''\<rparr>)]"
    by (simp add: load_locations_def read_json_def)
  have m: "map_of [(''nova'', nova\<lparr>galaxy := ''9''\<rparr>)] (lower ''nova'') = Some (nova\<lparr>galaxy := ''9''\<rparr>)"
    by (simp add: lower_Nova)
  have g: "galaxy (nova\<lparr>galaxy := ''9''\<rparr>) \<noteq> ''3'' \<or> address (nova\<lparr>galaxy := ''9''\<rparr>) \<noteq> ''1A2B3C4D5E6F''"
    by simp
  from 1 modify_location_stale [OF l m g] show ?thesis by simp
qed

end
